theory Spec2Isabelle
  imports Complex_Main
begin

section \<open>Values of the component's configuration and state\<close>

text \<open>
  The component of \<^verbatim>\<open>src/components/ResizeDetector.js\<close> is embedded with explicit state passing:
  every method takes the component and returns it updated. Calls that leave the component
  (\<^verbatim>\<open>onResize\<close>, \<^verbatim>\<open>setState\<close>, the scheduler returned by \<^verbatim>\<open>rafSchd\<close>) are recorded in
  traces held beside the fields, so that "was never invoked" is a statement about a list.

  A width or a height is \<^verbatim>\<open>undefined\<close> or a number. Numbers are compared with \<^verbatim>\<open>!==\<close> only;
  they are taken as reals (a content rectangle holds finite measures, NaN does not occur).
\<close>

datatype dim = Undefined | Num real

text \<open>An object \<^verbatim>\<open>{width, height}\<close>: the component state, a content rectangle, the child props.\<close>

record dims =
  width :: dim
  height :: dim

text \<open>
  An observation entry as the handler may receive it: \<^verbatim>\<open>null\<close> (or \<^verbatim>\<open>undefined\<close>), or an
  object whose \<^verbatim>\<open>contentRect\<close> is missing or is a rectangle.
\<close>

datatype entry = NullEntry | Entry "dims option"

datatype error = TypeError

type_synonym element = nat

text \<open>
  The values a property of the configuration can hold, as far as the component inspects
  them: \<^verbatim>\<open>null\<close>/\<^verbatim>\<open>undefined\<close>, a boolean, a number, a string, a function, a React element,
  an array, a DOM element, or any other object. The \<open>nat\<close> identifies the function, React
  element or DOM node. \<open>truthy\<close> is the language's conversion to a boolean (\<^verbatim>\<open>!!v\<close>, and the
  test of \<^verbatim>\<open>&&\<close> and \<^verbatim>\<open>if\<close>): \<^verbatim>\<open>null\<close>, \<^verbatim>\<open>undefined\<close>, \<^verbatim>\<open>false\<close>, \<^verbatim>\<open>0\<close> and the empty string are falsy.
\<close>

datatype jsval =
    JNull
  | JBool bool
  | JNumber real
  | JString string
  | JFunction nat
  | JElement nat
  | JArray "jsval list"
  | JDom element
  | JOther

fun truthy :: "jsval \<Rightarrow> bool" where
  "truthy JNull = False"
| "truthy (JBool b) = b"
| "truthy (JNumber n) = (n \<noteq> 0)"
| "truthy (JString s) = (s \<noteq> [])"
| "truthy _ = True"

text \<open>\<^verbatim>\<open>isValidElement\<close> and \<^verbatim>\<open>Array.isArray\<close> of the host library and the language.\<close>

fun isValidElement :: "jsval \<Rightarrow> bool" where
  "isValidElement (JElement _) = True"
| "isValidElement _ = False"

fun isArray :: "jsval \<Rightarrow> bool" where
  "isArray (JArray _) = True"
| "isArray _ = False"

text \<open>
  Modelled from the spec: \<^verbatim>\<open>isFunction\<close> and \<^verbatim>\<open>isDOMElement\<close> of \<^verbatim>\<open>lib/utils\<close> are not under
  src/. The spec speaks of "a function supplied" and of an "explicit element reference":
  the first holds of functions only, the second of DOM nodes only.
\<close>

fun isFunction :: "jsval \<Rightarrow> bool" where
  "isFunction (JFunction _) = True"
| "isFunction _ = False"

fun isDOMElement :: "jsval \<Rightarrow> bool" where
  "isDOMElement (JDom _) = True"
| "isDOMElement _ = False"

datatype refresh = Debounce | Throttle

text \<open>
  Modelled from the spec: \<^verbatim>\<open>getHandle\<close> of \<^verbatim>\<open>lib/utils\<close> is not under src/. The spec gives
  refreshMode as "none/debounce/throttle"; any other value selects no wrapper.
\<close>

definition getHandle :: "string option \<Rightarrow> refresh option" where
  "getHandle mode =
     (if mode = Some ''debounce'' then Some Debounce
      else if mode = Some ''throttle'' then Some Throttle
      else None)"

record edges =
  leading :: "bool option"
  trailing :: "bool option"

text \<open>\<^verbatim>\<open>this.props\<close>, with \<^verbatim>\<open>propTypes\<close> as the types. \<^verbatim>\<open>targetRef\<close> is \<^verbatim>\<open>null\<close> or an object whose
  \<^verbatim>\<open>current\<close> is the value held.\<close>

record props =
  handleWidth :: bool
  handleHeight :: bool
  skipOnMount :: bool
  refreshRate :: nat
  refreshMode :: "string option"
  refreshOptions :: "edges option"
  querySelector :: "string option"
  targetDomEl :: jsval
  targetRef :: "jsval option"
  onResize :: jsval
  render_prop :: jsval
  children :: jsval
  nodeType :: string

definition defaultProps :: props where
  "defaultProps =
     \<lparr> handleWidth = True, handleHeight = True, skipOnMount = False, refreshRate = 1000,
       refreshMode = None, refreshOptions = None, querySelector = None, targetDomEl = JNull,
       targetRef = None, onResize = JNull, render_prop = JNull, children = JNull,
       nodeType = ''div'' \<rparr>"

section \<open>Collaborators\<close>

text \<open>
  The scheduler \<^verbatim>\<open>rafSchd(fn)\<close> returns (the library raf-schd; in the spec's words it "buffers
  the latest size and flushes at most once per rendering frame"): called with an argument
  it remembers the argument and, unless a frame is already requested, requests one; the
  frame calls \<^verbatim>\<open>fn\<close> with the latest argument; \<^verbatim>\<open>cancel\<close> withdraws the request. \<open>Idle\<close>: no
  frame is requested. \<open>Scheduled sz\<close>: one is, and \<open>sz\<close> is the latest argument.
\<close>

datatype sched = Idle | Scheduled dims

text \<open>\<^verbatim>\<open>this.resizeHandler\<close>: \<^verbatim>\<open>createResizeHandler\<close> itself, or the function the debounce or
  throttle primitive returned for it (the only one with a \<^verbatim>\<open>cancel\<close> method).\<close>

datatype handler = Raw | Wrapped refresh

fun has_cancel :: "handler \<Rightarrow> bool" where
  "has_cancel Raw = False"
| "has_cancel (Wrapped _) = True"

text \<open>
  The component. Beside the fields of the source (\<^verbatim>\<open>this.skipOnMount\<close> is \<open>this_skipOnMount\<close>,
  \<^verbatim>\<open>this.targetRef.current\<close> is \<open>this_targetRef\<close>) it holds the state of its collaborators:
  \<^item> \<open>observations\<close>: the nodes registered with \<^verbatim>\<open>this.resizeObserver\<close>, and \<open>callback\<close>, the
    function the observer was constructed with;
  \<^item> \<open>deferred\<close>: the arguments the debounce/throttle wrapper holds for its timer;
  \<^item> the traces \<open>onResize_calls\<close>, \<open>setState_calls\<close> and \<open>updater_calls\<close>.
\<close>

record component =
  props :: props
  state :: dims
  this_skipOnMount :: bool
  raf :: "sched option"
  unmounted :: bool
  this_targetRef :: jsval
  observableElement :: "element option"
  resizeHandler :: "handler option"
  observations :: "element list"
  callback :: handler
  deferred :: "entry list option"
  onResize_calls :: "dims list"
  setState_calls :: "dims list"
  updater_calls :: "dims list"

text \<open>What the resolver reads of the document at the moment it runs; a string that is
  \<^verbatim>\<open>null\<close> or empty is falsy, a DOM node held in a \<open>jsval\<close> is \<open>node_of\<close> it.\<close>

record dom =
  document_querySelector :: "string \<Rightarrow> element option"
  findDOMNode :: "element option"
  parentElement :: "element \<Rightarrow> element option"

section \<open>The component's methods\<close>

definition constructor :: "props \<Rightarrow> component" where
  "constructor p =
     (let h = (case getHandle (refreshMode p) of Some m \<Rightarrow> Wrapped m | None \<Rightarrow> Raw)
      in \<lparr> props = p,
           state = \<lparr> width = Undefined, height = Undefined \<rparr>,
           this_skipOnMount = skipOnMount p,
           raf = None,
           unmounted = False,
           this_targetRef = JNull,
           observableElement = None,
           resizeHandler = Some h,
           observations = [],
           callback = h,
           deferred = None,
           onResize_calls = [],
           setState_calls = [],
           updater_calls = [] \<rparr>)"

text \<open>Modelled from the spec: the observation facility (\<^verbatim>\<open>resize-observer-polyfill\<close>) is not
  under src/. Its register is "idempotent per node", its disconnect is "deregister-all".\<close>

definition observe :: "element \<Rightarrow> component \<Rightarrow> component" where
  "observe el c =
     (if el \<in> set (observations c) then c else c\<lparr> observations := observations c @ [el] \<rparr>)"

definition disconnect :: "component \<Rightarrow> component" where
  "disconnect c = c\<lparr> observations := [] \<rparr>"

definition cancelHandler :: "component \<Rightarrow> component" where
  "cancelHandler c =
     (case resizeHandler c of
        None \<Rightarrow> c
      | Some h \<Rightarrow> if has_cancel h then c\<lparr> deferred := None, resizeHandler := None \<rparr> else c)"

definition rafClean :: "component \<Rightarrow> component" where
  "rafClean c = (case raf c of None \<Rightarrow> c | Some _ \<Rightarrow> c\<lparr> raf := None \<rparr>)"

datatype renderType = RenderProp | ChildFunction | Child | ChildArray | Parent

definition getRenderType :: "props \<Rightarrow> renderType" where
  "getRenderType p =
     (if isFunction (render_prop p) then RenderProp
      else if isFunction (children p) then ChildFunction
      else if isValidElement (children p) then Child
      else if isArray (children p) then ChildArray
      else Parent)"

fun node_of :: "jsval \<Rightarrow> element option" where
  "node_of (JDom el) = Some el"
| "node_of _ = None"

definition getElement :: "bool \<Rightarrow> dom \<Rightarrow> component \<Rightarrow> element option" where
  "getElement isSSR d c =
     (if isSSR then None
      else case querySelector (props c) of
        Some (q # qs) \<Rightarrow> document_querySelector d (q # qs)
      | _ \<Rightarrow>
        if truthy (targetDomEl (props c)) \<and> isDOMElement (targetDomEl (props c))
        then node_of (targetDomEl (props c))
        else if isDOMElement (this_targetRef c) then node_of (this_targetRef c)
        else
          (case findDOMNode d of
             None \<Rightarrow> None
           | Some currentElement \<Rightarrow>
             (case getRenderType (props c) of
                RenderProp \<Rightarrow> Some currentElement
              | ChildFunction \<Rightarrow> Some currentElement
              | Child \<Rightarrow> Some currentElement
              | ChildArray \<Rightarrow> Some currentElement
              | Parent \<Rightarrow> parentElement d currentElement)))"

definition attachObserver :: "bool \<Rightarrow> dom \<Rightarrow> component \<Rightarrow> component" where
  "attachObserver isSSR d c =
     (let c1 = (case targetRef (props c) of
                  Some cur \<Rightarrow> if truthy cur then c\<lparr> this_targetRef := cur \<rparr> else c
                | None \<Rightarrow> c)
      in case getElement isSSR d c1 of
           None \<Rightarrow> c1
         | Some el \<Rightarrow>
             if observableElement c1 = Some el then c1
             else observe el (c1\<lparr> observableElement := Some el \<rparr>))"

definition componentDidMount :: "bool \<Rightarrow> dom \<Rightarrow> component \<Rightarrow> component" where
  "componentDidMount isSSR d c = attachObserver isSSR d c"

definition componentDidUpdate :: "bool \<Rightarrow> dom \<Rightarrow> component \<Rightarrow> component" where
  "componentDidUpdate isSSR d c = attachObserver isSSR d c"

definition componentWillUnmount :: "component \<Rightarrow> component" where
  "componentWillUnmount c = (cancelHandler (rafClean (disconnect c)))\<lparr> unmounted := True \<rparr>"

text \<open>The function handed to \<^verbatim>\<open>rafSchd\<close> in \<^verbatim>\<open>createUpdater\<close>: the flush.\<close>

definition flush :: "dims \<Rightarrow> component \<Rightarrow> component" where
  "flush sz c =
     (let c1 = (if isFunction (onResize (props c))
                then c\<lparr> onResize_calls := onResize_calls c @ [sz] \<rparr> else c)
      in c1\<lparr> state := sz, setState_calls := setState_calls c1 @ [sz] \<rparr>)"

definition createUpdater :: "component \<Rightarrow> component" where
  "createUpdater c = (rafClean c)\<lparr> raf := Some Idle \<rparr>"

text \<open>A call of the scheduler \<^verbatim>\<open>createUpdater\<close> returned (it is \<^verbatim>\<open>this.raf\<close> throughout the loop
  that calls it).\<close>

definition updater :: "dims \<Rightarrow> component \<Rightarrow> component" where
  "updater sz c = c\<lparr> raf := Some (Scheduled sz), updater_calls := updater_calls c @ [sz] \<rparr>"

text \<open>Reading \<^verbatim>\<open>entry.contentRect\<close> raises on \<^verbatim>\<open>null\<close>; \<^verbatim>\<open>entry && entry.contentRect\<close> reads it
  of an object only; \<^verbatim>\<open>... || {}\<close> puts the empty object for a missing rectangle, whose
  \<^verbatim>\<open>width\<close> and \<^verbatim>\<open>height\<close> are \<^verbatim>\<open>undefined\<close>.\<close>

fun get_contentRect :: "entry \<Rightarrow> error + dims option" where
  "get_contentRect NullEntry = Inl TypeError"
| "get_contentRect (Entry r) = Inr r"

definition entry_rect :: "entry \<Rightarrow> error + dims" where
  "entry_rect e =
     (case (case e of NullEntry \<Rightarrow> Inr None | Entry _ \<Rightarrow> get_contentRect e) of
        Inl err \<Rightarrow> Inl err
      | Inr None \<Rightarrow> Inr \<lparr> width = Undefined, height = Undefined \<rparr>
      | Inr (Some r) \<Rightarrow> Inr r)"

text \<open>The body of \<^verbatim>\<open>entries.forEach\<close>, closed over the state and the flags read before
  the loop. The second component of the result is the exception raised, if any.\<close>

definition forEach_body ::
  "bool \<Rightarrow> dim \<Rightarrow> dim \<Rightarrow> bool \<Rightarrow> bool \<Rightarrow> entry \<Rightarrow> component \<Rightarrow> component \<times> error option" where
  "forEach_body isSSR widthCurrent heightCurrent hW hH e c =
     (case entry_rect e of
        Inl err \<Rightarrow> (c, Some err)
      | Inr r \<Rightarrow>
          (let isWidthChanged = (hW \<and> widthCurrent \<noteq> width r);
               isHeightChanged = (hH \<and> heightCurrent \<noteq> height r);
               isSizeChanged = (isWidthChanged \<or> isHeightChanged);
               shouldSetSize = (\<not> this_skipOnMount c \<and> isSizeChanged \<and> \<not> isSSR);
               c1 = (if shouldSetSize
                     then updater \<lparr> width = width r, height = height r \<rparr> c else c)
           in (c1\<lparr> this_skipOnMount := False \<rparr>, None)))"

fun forEach ::
  "bool \<Rightarrow> dim \<Rightarrow> dim \<Rightarrow> bool \<Rightarrow> bool \<Rightarrow> entry list \<Rightarrow> component \<Rightarrow> component \<times> error option" where
  "forEach isSSR wC hC hW hH [] c = (c, None)"
| "forEach isSSR wC hC hW hH (e # es) c =
     (case forEach_body isSSR wC hC hW hH e c of
        (c1, None) \<Rightarrow> forEach isSSR wC hC hW hH es c1
      | (c1, Some err) \<Rightarrow> (c1, Some err))"

definition createResizeHandler :: "bool \<Rightarrow> entry list \<Rightarrow> component \<Rightarrow> component \<times> error option" where
  "createResizeHandler isSSR entries c =
     (let widthCurrent = width (state c);
          heightCurrent = height (state c);
          hW = handleWidth (props c);
          hH = handleHeight (props c)
      in if \<not> hW \<and> \<not> hH then (c, None)
         else forEach isSSR widthCurrent heightCurrent hW hH entries (createUpdater c))"

text \<open>What \<^verbatim>\<open>render\<close> returns: the call of a function with the child props (its result is the
  caller's), a clone with the child props added, \<^verbatim>\<open>false\<close>, an array, or an empty element.\<close>

datatype rendered =
    Called nat dims
  | Cloned jsval dims
  | RFalse
  | RArray "rendered list"
  | Created string

definition render :: "component \<Rightarrow> error + rendered" where
  "render c =
     (let childProps = \<lparr> width = width (state c), height = height (state c) \<rparr>
      in case getRenderType (props c) of
           RenderProp \<Rightarrow>
             (case render_prop (props c) of JFunction f \<Rightarrow> Inr (Called f childProps)
                                          | _ \<Rightarrow> Inl TypeError)
         | ChildFunction \<Rightarrow>
             (case children (props c) of JFunction f \<Rightarrow> Inr (Called f childProps)
                                       | _ \<Rightarrow> Inl TypeError)
         | Child \<Rightarrow> Inr (Cloned (children (props c)) childProps)
         | ChildArray \<Rightarrow>
             (case children (props c) of
                JArray els \<Rightarrow>
                  Inr (RArray (map (\<lambda>el. if truthy el then Cloned el childProps else RFalse) els))
              | _ \<Rightarrow> Inl TypeError)
         | Parent \<Rightarrow> Inr (Created (nodeType (props c))))"

section \<open>The component among its collaborators\<close>

text \<open>
  What can happen to a component: the host library calls a lifecycle method (an update
  brings the new props), the observation facility calls its callback with entries, the
  wrapper's timer expires, a rendering frame begins. \<open>Observed entries now\<close> carries what
  the clock decides when a wrapper is called: \<open>now\<close> says that it runs the handler at once.
\<close>

datatype event =
    DidMount dom
  | DidUpdate props dom
  | WillUnmount
  | Observed "entry list" bool
  | TimerExpires
  | Frame

definition call_handler :: "bool \<Rightarrow> entry list \<Rightarrow> component \<Rightarrow> component" where
  "call_handler isSSR entries c = fst (createResizeHandler isSSR entries c)"

text \<open>Modelled from the spec: the debounce/throttle primitive that \<^verbatim>\<open>getHandle\<close> selects is not
  under src/. It "defers invocation of the raw handler" and returns a "wrapped fn with a
  cancel() method": a call runs the handler at once (a leading edge, an elapsed interval)
  or leaves its arguments to the timer; the timer runs the handler with the arguments
  left; \<^verbatim>\<open>cancel\<close> (in \<open>cancelHandler\<close>) drops them.\<close>

definition call_wrapped :: "bool \<Rightarrow> bool \<Rightarrow> entry list \<Rightarrow> component \<Rightarrow> component" where
  "call_wrapped isSSR now entries c =
     (if now then call_handler isSSR entries (c\<lparr> deferred := None \<rparr>)
      else c\<lparr> deferred := Some entries \<rparr>)"

definition timer_expires :: "bool \<Rightarrow> component \<Rightarrow> component" where
  "timer_expires isSSR c =
     (case deferred c of
        None \<Rightarrow> c
      | Some entries \<Rightarrow> call_handler isSSR entries (c\<lparr> deferred := None \<rparr>))"

definition frame :: "component \<Rightarrow> component" where
  "frame c =
     (case raf c of
        Some (Scheduled sz) \<Rightarrow> flush sz (c\<lparr> raf := Some Idle \<rparr>)
      | _ \<Rightarrow> c)"

text \<open>A callback of the facility: it calls the function the observer was constructed with.
  Nothing in that function asks whether a node is registered or the component is mounted,
  so a callback that arrives after the unmount runs it as well.\<close>

definition observed :: "bool \<Rightarrow> entry list \<Rightarrow> bool \<Rightarrow> component \<Rightarrow> component" where
  "observed isSSR entries now c =
     (case callback c of
        Raw \<Rightarrow> call_handler isSSR entries c
      | Wrapped _ \<Rightarrow> call_wrapped isSSR now entries c)"

fun step :: "bool \<Rightarrow> event \<Rightarrow> component \<Rightarrow> component" where
  "step isSSR (DidMount d) c = componentDidMount isSSR d c"
| "step isSSR (DidUpdate p d) c = componentDidUpdate isSSR d (c\<lparr> props := p \<rparr>)"
| "step isSSR WillUnmount c = componentWillUnmount c"
| "step isSSR (Observed entries now) c = observed isSSR entries now c"
| "step isSSR TimerExpires c = timer_expires isSSR c"
| "step isSSR Frame c = frame c"

fun run :: "bool \<Rightarrow> event list \<Rightarrow> component \<Rightarrow> component" where
  "run isSSR [] c = c"
| "run isSSR (ev # evs) c = run isSSR evs (step isSSR ev c)"

section \<open>Notions the properties are stated with\<close>

subsection \<open>Sizes and batches\<close>

text \<open>The size the loop body reads of an entry: the content rectangle, or \<^verbatim>\<open>undefined\<close> twice.\<close>

definition rect_of :: "entry \<Rightarrow> dims" where
  "rect_of e =
     (case e of Entry (Some r) \<Rightarrow> r | _ \<Rightarrow> \<lparr> width = Undefined, height = Undefined \<rparr>)"

definition undefined_size :: dims where
  "undefined_size = \<lparr> width = Undefined, height = Undefined \<rparr>"


text \<open>An entry that is \<^verbatim>\<open>null\<close> or has no content rectangle.\<close>

fun malformed :: "entry \<Rightarrow> bool" where
  "malformed NullEntry = True"
| "malformed (Entry None) = True"
| "malformed (Entry (Some r)) = False"

text \<open>A size change in a handled dimension, against the size \<open>cur\<close>; an entry without one.\<close>

definition size_changed :: "bool \<Rightarrow> bool \<Rightarrow> dims \<Rightarrow> dims \<Rightarrow> bool" where
  "size_changed hW hH cur r = ((hW \<and> width cur \<noteq> width r) \<or> (hH \<and> height cur \<noteq> height r))"

definition unchanged :: "bool \<Rightarrow> bool \<Rightarrow> dims \<Rightarrow> entry \<Rightarrow> bool" where
  "unchanged hW hH cur e = (\<not> size_changed hW hH cur (rect_of e))"

text \<open>The sizes a batch forwards, in delivery order: outside a browser none; the first entry
  is passed over while the mount flag is set; of the others, those that changed against \<open>cur\<close>.\<close>

definition forwarded :: "bool \<Rightarrow> bool \<Rightarrow> bool \<Rightarrow> dims \<Rightarrow> bool \<Rightarrow> entry list \<Rightarrow> dims list" where
  "forwarded isSSR hW hH cur skip es =
     (if isSSR then []
      else filter (size_changed hW hH cur) (map rect_of (if skip then tl es else es)))"

text \<open>A frame is requested of the scheduler.\<close>

fun is_scheduled :: "sched option \<Rightarrow> bool" where
  "is_scheduled (Some (Scheduled sz)) = True"
| "is_scheduled _ = False"

subsection \<open>Kinds of events\<close>

text \<open>Events that are no lifecycle call: a callback of the facility, the timer, a frame.\<close>

fun async :: "event \<Rightarrow> bool" where
  "async (Observed es now) = True"
| "async TimerExpires = True"
| "async Frame = True"
| "async _ = False"

text \<open>Events that need no caller from outside: the wrapper's timer and a frame.\<close>

fun pending :: "event \<Rightarrow> bool" where
  "pending TimerExpires = True"
| "pending Frame = True"
| "pending _ = False"


text \<open>Events of a component that is not torn down.\<close>

fun lifetime :: "event \<Rightarrow> bool" where
  "lifetime WillUnmount = False"
| "lifetime _ = True"

text \<open>Events that leave both dimensions unhandled: an update must bring props that do.\<close>

fun keeps_off :: "event \<Rightarrow> bool" where
  "keeps_off (DidUpdate q d) = (\<not> handleWidth q \<and> \<not> handleHeight q)"
| "keeps_off _ = True"

text \<open>Events of a sequence of entries that repeat the size \<open>cur\<close>: the callbacks that deliver
  them, the timer and the frames.\<close>

fun repeats_size :: "bool \<Rightarrow> bool \<Rightarrow> dims \<Rightarrow> event \<Rightarrow> bool" where
  "repeats_size hW hH cur (Observed es now) = list_all (unchanged hW hH cur) es"
| "repeats_size hW hH cur TimerExpires = True"
| "repeats_size hW hH cur Frame = True"
| "repeats_size hW hH cur _ = False"

subsection \<open>Invariants\<close>

text \<open>With neither dimension handled: no scheduler, no size, no call.\<close>

definition off_inv :: "component \<Rightarrow> bool" where
  "off_inv c =
     (\<not> handleWidth (props c) \<and> \<not> handleHeight (props c) \<and> raf c = None \<and>
      state c = \<lparr> width = Undefined, height = Undefined \<rparr> \<and>
      setState_calls c = [] \<and> onResize_calls c = [] \<and> updater_calls c = [])"

text \<open>What holds of every component the events can reach from the constructor: until the
  updater has been called the size is undefined and no frame is requested; once it has
  been, the mount flag is clear and the component runs in a browser.\<close>

definition reach_inv :: "bool \<Rightarrow> component \<Rightarrow> bool" where
  "reach_inv isSSR c =
     ((updater_calls c = [] \<longrightarrow> state c = undefined_size \<and> \<not> is_scheduled (raf c)) \<and>
      (updater_calls c \<noteq> [] \<longrightarrow> \<not> this_skipOnMount c \<and> \<not> isSSR))"


text \<open>What a sequence of entries that repeat the size keeps of the component \<open>c0\<close> it starts on.\<close>

definition quiet_inv :: "component \<Rightarrow> component \<Rightarrow> bool" where
  "quiet_inv c0 c =
     (props c = props c0 \<and> state c = state c0 \<and> \<not> is_scheduled (raf c) \<and>
      setState_calls c = setState_calls c0 \<and> onResize_calls c = onResize_calls c0 \<and>
      updater_calls c = updater_calls c0 \<and>
      (case deferred c of None \<Rightarrow> True
       | Some es \<Rightarrow> list_all (unchanged (handleWidth (props c0)) (handleHeight (props c0)) (state c0)) es))"

text \<open>During the lifetime the handler field is the observer's callback, and only a wrapper
  defers entries. After teardown no frame is requested, no batch deferred, no node registered.\<close>

definition live_inv :: "component \<Rightarrow> bool" where
  "live_inv c = (resizeHandler c = Some (callback c) \<and> (callback c = Raw \<longrightarrow> deferred c = None))"

definition torn_down :: "component \<Rightarrow> bool" where
  "torn_down c = (raf c = None \<and> deferred c = None \<and> observations c = [])"

text \<open>No node is registered twice, and the element the component tracks is registered.\<close>

definition tracked_inv :: "component \<Rightarrow> bool" where
  "tracked_inv c =
     (distinct (observations c) \<and>
      (case observableElement c of None \<Rightarrow> True | Some el \<Rightarrow> el \<in> set (observations c)))"

subsection \<open>The resolver\<close>

text \<open>A selector is given (a non-empty string). The element inferred from the rendered
  output: the rendered node for the four strategies that render the caller's output,
  else the parent of the rendered wrapper.\<close>

definition selector_set :: "props \<Rightarrow> bool" where
  "selector_set p = (case querySelector p of Some (q # qs) \<Rightarrow> True | _ \<Rightarrow> False)"

definition inferred :: "dom \<Rightarrow> props \<Rightarrow> element option" where
  "inferred d p =
     (case findDOMNode d of
        None \<Rightarrow> None
      | Some currentElement \<Rightarrow>
          if getRenderType p \<in> {RenderProp, ChildFunction, Child, ChildArray}
          then Some currentElement else parentElement d currentElement)"

subsection \<open>Examples\<close>

text \<open>A document: the selector \<^verbatim>\<open>#box\<close> matches node 7, the component renders node 3, whose
  parent is node 2. Two sizes.\<close>

definition page :: dom where
  "page =
     \<lparr> document_querySelector = (\<lambda>q. if q = ''#box'' then Some 7 else None),
       findDOMNode = Some 3,
       parentElement = (\<lambda>el. if el = 3 then Some 2 else None) \<rparr>"

definition size_100_50 :: dims where
  "size_100_50 = \<lparr> width = Num 100, height = Num 50 \<rparr>"

definition size_120_60 :: dims where
  "size_120_60 = \<lparr> width = Num 120, height = Num 60 \<rparr>"

text \<open>Configurations: the defaults (both dimensions handled) with a callback; the same with
  skipOnMount; the same debounced; the same with every target given at once.\<close>

definition watching :: props where
  "watching = defaultProps\<lparr> onResize := JFunction 1 \<rparr>"



definition targeted :: props where
  "targeted = watching\<lparr> querySelector := Some ''#box'', targetDomEl := JDom 5,
                targetRef := Some (JDom 6) \<rparr>"

text \<open>Components: after the mount on the page, a first entry and its frame; one whose state
  holds a size.\<close>

definition settled :: component where
  "settled = run False [DidMount page, Observed [Entry (Some size_100_50)] True, Frame]
     (constructor watching)"

definition sized :: "props \<Rightarrow> component" where
  "sized p = (constructor p)\<lparr> state := size_100_50 \<rparr>"

section \<open>The resize handler, in closed form\<close>

lemma entry_rect_total: "entry_rect e = Inr (rect_of e)"
  by (simp add: entry_rect_def rect_of_def split: entry.splits option.splits)

lemma dims_eta: "\<lparr> width = width r, height = height r \<rparr> = (r::dims)"
  by (cases r) simp

lemma forEach_body_eq:
  "forEach_body isSSR wC hC hW hH e c =
     ((if \<not> this_skipOnMount c \<and> size_changed hW hH \<lparr> width = wC, height = hC \<rparr> (rect_of e) \<and> \<not> isSSR
       then updater (rect_of e) c else c)\<lparr> this_skipOnMount := False \<rparr>, None)"
  by (auto simp: forEach_body_def entry_rect_total size_changed_def Let_def dims_eta)

lemma forEach_eq:
  "forEach isSSR wC hC hW hH es c =
     (let fw = forwarded isSSR hW hH \<lparr> width = wC, height = hC \<rparr> (this_skipOnMount c) es
      in (c\<lparr> raf := (if fw = [] then raf c else Some (Scheduled (last fw))),
            updater_calls := updater_calls c @ fw,
            this_skipOnMount := (if es = [] then this_skipOnMount c else False) \<rparr>, None))"
proof (induction es arbitrary: c)
  case Nil
  show ?case by (simp add: forwarded_def)
next
  case (Cons e es)
  show ?case
    by (simp add: forEach_body_eq Cons.IH forwarded_def updater_def Let_def)
qed

lemma createUpdater_eq: "createUpdater c = c\<lparr> raf := Some Idle \<rparr>"
  by (simp add: createUpdater_def rafClean_def split: option.splits)

lemma createResizeHandler_off:
  "\<not> handleWidth (props c) \<Longrightarrow> \<not> handleHeight (props c) \<Longrightarrow>
   createResizeHandler isSSR es c = (c, None)"
  by (simp add: createResizeHandler_def)

lemma createResizeHandler_on:
  assumes "handleWidth (props c) \<or> handleHeight (props c)"
  shows "createResizeHandler isSSR es c =
     (c\<lparr> raf := Some (case forwarded isSSR (handleWidth (props c)) (handleHeight (props c))
                             (state c) (this_skipOnMount c) es of
                        [] \<Rightarrow> Idle | x # xs \<Rightarrow> Scheduled (last (x # xs))),
          updater_calls := updater_calls c @
             forwarded isSSR (handleWidth (props c)) (handleHeight (props c)) (state c)
                       (this_skipOnMount c) es,
          this_skipOnMount := (if es = [] then this_skipOnMount c else False) \<rparr>, None)"
  using assms
  by (auto simp: createResizeHandler_def Let_def forEach_eq createUpdater_eq dims_eta
           split: list.splits)

lemma call_handler_off:
  "\<not> handleWidth (props c) \<Longrightarrow> \<not> handleHeight (props c) \<Longrightarrow> call_handler isSSR es c = c"
  by (simp add: call_handler_def createResizeHandler_off)

lemma call_handler_on:
  assumes "handleWidth (props c) \<or> handleHeight (props c)"
  shows "call_handler isSSR es c =
     c\<lparr> raf := Some (case forwarded isSSR (handleWidth (props c)) (handleHeight (props c))
                             (state c) (this_skipOnMount c) es of
                        [] \<Rightarrow> Idle | x # xs \<Rightarrow> Scheduled (last (x # xs))),
          updater_calls := updater_calls c @
             forwarded isSSR (handleWidth (props c)) (handleHeight (props c)) (state c)
                       (this_skipOnMount c) es,
          this_skipOnMount := (if es = [] then this_skipOnMount c else False) \<rparr>"
  by (simp add: call_handler_def createResizeHandler_on [OF assms])

lemma call_handler_keeps [simp]:
  "props (call_handler isSSR es c) = props c"
  "state (call_handler isSSR es c) = state c"
  "resizeHandler (call_handler isSSR es c) = resizeHandler c"
  "callback (call_handler isSSR es c) = callback c"
  "deferred (call_handler isSSR es c) = deferred c"
  "observations (call_handler isSSR es c) = observations c"
  "setState_calls (call_handler isSSR es c) = setState_calls c"
  "onResize_calls (call_handler isSSR es c) = onResize_calls c"
  by (cases "handleWidth (props c) \<or> handleHeight (props c)";
      simp add: call_handler_on call_handler_off)+

lemma forwarded_nonempty: "forwarded isSSR hW hH cur skip es \<noteq> [] \<Longrightarrow> \<not> isSSR \<and> es \<noteq> []"
  by (auto simp: forwarded_def split: if_splits)

lemma forwarded_unchanged:
  "list_all (unchanged hW hH cur) es \<Longrightarrow> forwarded isSSR hW hH cur skip es = []"
proof -
  assume a: "list_all (unchanged hW hH cur) es"
  have "list_all (unchanged hW hH cur) xs \<Longrightarrow> filter (size_changed hW hH cur) (map rect_of xs) = []" for xs
    by (induction xs) (simp_all add: unchanged_def)
  moreover have "list_all (unchanged hW hH cur) (tl es)"
    using a by (cases es) simp_all
  ultimately show ?thesis
    using a by (simp add: forwarded_def)
qed

lemma frame_scheduled: "raf c = Some (Scheduled sz) \<Longrightarrow> frame c = flush sz (c\<lparr> raf := Some Idle \<rparr>)"
  by (simp add: frame_def)

lemma frame_not_scheduled: "\<not> is_scheduled (raf c) \<Longrightarrow> frame c = c"
  by (cases "raf c" rule: is_scheduled.cases) (simp_all add: frame_def)

lemma flush_fields [simp]:
  "state (flush sz c) = sz"
  "setState_calls (flush sz c) = setState_calls c @ [sz]"
  "onResize_calls (flush sz c) =
     onResize_calls c @ (if isFunction (onResize (props c)) then [sz] else [])"
  "raf (flush sz c) = raf c"
  "props (flush sz c) = props c"
  "updater_calls (flush sz c) = updater_calls c"
  "this_skipOnMount (flush sz c) = this_skipOnMount c"
  "deferred (flush sz c) = deferred c"
  "observations (flush sz c) = observations c"
  "callback (flush sz c) = callback c"
  "resizeHandler (flush sz c) = resizeHandler c"
  by (simp_all add: flush_def Let_def)

section \<open>What the lifecycle methods leave alone\<close>

lemma attachObserver_keeps [simp]:
  "props (attachObserver isSSR d c) = props c"
  "state (attachObserver isSSR d c) = state c"
  "this_skipOnMount (attachObserver isSSR d c) = this_skipOnMount c"
  "raf (attachObserver isSSR d c) = raf c"
  "resizeHandler (attachObserver isSSR d c) = resizeHandler c"
  "callback (attachObserver isSSR d c) = callback c"
  "deferred (attachObserver isSSR d c) = deferred c"
  "onResize_calls (attachObserver isSSR d c) = onResize_calls c"
  "setState_calls (attachObserver isSSR d c) = setState_calls c"
  "updater_calls (attachObserver isSSR d c) = updater_calls c"
  by (simp_all add: attachObserver_def observe_def Let_def split: option.splits)

lemma componentWillUnmount_keeps [simp]:
  "props (componentWillUnmount c) = props c"
  "state (componentWillUnmount c) = state c"
  "this_skipOnMount (componentWillUnmount c) = this_skipOnMount c"
  "callback (componentWillUnmount c) = callback c"
  "onResize_calls (componentWillUnmount c) = onResize_calls c"
  "setState_calls (componentWillUnmount c) = setState_calls c"
  "updater_calls (componentWillUnmount c) = updater_calls c"
  "raf (componentWillUnmount c) = None"
  "observations (componentWillUnmount c) = []"
  by (simp_all add: componentWillUnmount_def cancelHandler_def rafClean_def disconnect_def
       split: option.splits)

lemma unmount_sets_unmounted: "unmounted (componentWillUnmount c)"
  by (simp add: componentWillUnmount_def)

lemma async_keeps_observations:
  "async ev \<Longrightarrow> observations (step isSSR ev c) = observations c \<and>
      observableElement (step isSSR ev c) = observableElement c"
proof (cases ev)
  case (Observed es now)
  have "observableElement (call_handler isSSR es x) = observableElement x" for x
    by (cases "handleWidth (props x) \<or> handleHeight (props x)")
       (simp_all add: call_handler_on call_handler_off)
  then show ?thesis
    by (simp add: Observed observed_def call_wrapped_def split: handler.splits)
next
  case TimerExpires
  have "observableElement (call_handler isSSR es x) = observableElement x" for x es
    by (cases "handleWidth (props x) \<or> handleHeight (props x)")
       (simp_all add: call_handler_on call_handler_off)
  then show ?thesis
    by (simp add: TimerExpires timer_expires_def split: option.splits)
next
  case Frame
  then show ?thesis
    by (cases "raf c" rule: is_scheduled.cases) (simp_all add: frame_def flush_def Let_def)
qed simp_all

lemma run_append: "run isSSR (xs @ ys) c = run isSSR ys (run isSSR xs c)"
  by (induction xs arbitrary: c) simp_all

section \<open>Evaluating the examples\<close>

lemmas fixtures = watching_def defaultProps_def constructor_def getHandle_def size_100_50_def
  size_120_60_def undefined_size_def page_def

lemmas model_defs = componentDidMount_def componentDidUpdate_def
  componentWillUnmount_def attachObserver_def getElement_def getRenderType_def observe_def
  disconnect_def cancelHandler_def rafClean_def observed_def call_wrapped_def timer_expires_def
  frame_def flush_def call_handler_def createResizeHandler_def createUpdater_def updater_def
  forEach_body_def entry_rect_def Let_def

lemma example_run:
  "run False [DidMount page, Observed [Entry (Some size_100_50)] True, Frame] (constructor watching) =
     (constructor watching)\<lparr> raf := Some Idle, state := size_100_50, observableElement := Some 2,
        observations := [2], onResize_calls := [size_100_50], setState_calls := [size_100_50],
        updater_calls := [size_100_50] \<rparr>"
  by (simp add: model_defs fixtures)

lemma settled_eq:
  "settled = (constructor watching)\<lparr> raf := Some Idle, state := size_100_50,
        observableElement := Some 2, observations := [2], onResize_calls := [size_100_50],
        setState_calls := [size_100_50], updater_calls := [size_100_50] \<rparr>"
  unfolding settled_def by (rule example_run)

section \<open>Registrations\<close>

lemma attachObserver_observations:
  "observations (attachObserver isSSR d c) =
     (case observableElement (attachObserver isSSR d c) of
        None \<Rightarrow> observations c
      | Some el \<Rightarrow> if el \<in> set (observations c) \<or> observableElement c = Some el
                  then observations c else observations c @ [el])"
  by (auto simp: attachObserver_def observe_def Let_def split: option.splits)

lemma attachObserver_tracked: "tracked_inv c \<Longrightarrow> tracked_inv (attachObserver isSSR d c)"
  by (auto simp: tracked_inv_def attachObserver_def observe_def Let_def split: option.splits)

lemma step_tracked: "tracked_inv c \<Longrightarrow> lifetime ev \<Longrightarrow> tracked_inv (step isSSR ev c)"
proof (cases ev)
  case (DidMount d)
  assume "tracked_inv c"
  then show ?thesis by (simp add: DidMount componentDidMount_def attachObserver_tracked)
next
  case (DidUpdate q d)
  assume "tracked_inv c"
  then have "tracked_inv (c\<lparr> props := q \<rparr>)"
    by (simp add: tracked_inv_def split: option.splits)
  then show ?thesis by (simp add: DidUpdate componentDidUpdate_def attachObserver_tracked)
next
  case WillUnmount
  assume "lifetime ev"
  then show ?thesis by (simp add: WillUnmount)
next
  case (Observed es now)
  assume "tracked_inv c"
  then show ?thesis
    using async_keeps_observations [of ev isSSR c] by (simp add: Observed tracked_inv_def split: option.splits)
next
  case TimerExpires
  assume "tracked_inv c"
  then show ?thesis
    using async_keeps_observations [of ev isSSR c] by (simp add: TimerExpires tracked_inv_def split: option.splits)
next
  case Frame
  assume "tracked_inv c"
  then show ?thesis
    using async_keeps_observations [of ev isSSR c] by (simp add: Frame tracked_inv_def split: option.splits)
qed

lemma run_tracked: "tracked_inv c \<Longrightarrow> list_all lifetime evs \<Longrightarrow> tracked_inv (run isSSR evs c)"
  by (induction evs arbitrary: c) (simp_all add: step_tracked)

lemma step_keeps_registered:
  "lifetime ev \<Longrightarrow> set (observations c) \<subseteq> set (observations (step isSSR ev c))"
proof (cases ev)
  case (DidMount d)
  then show ?thesis
    by (auto simp: componentDidMount_def attachObserver_def observe_def Let_def split: option.splits)
next
  case (DidUpdate q d)
  then show ?thesis
    by (auto simp: componentDidUpdate_def attachObserver_def observe_def Let_def split: option.splits)
next
  case WillUnmount
  assume "lifetime ev"
  then show ?thesis by (simp add: WillUnmount)
next
  case (Observed es now)
  then show ?thesis using async_keeps_observations [of ev isSSR c] by simp
next
  case TimerExpires
  then show ?thesis using async_keeps_observations [of ev isSSR c] by simp
next
  case Frame
  then show ?thesis using async_keeps_observations [of ev isSSR c] by simp
qed

lemma run_keeps_registered:
  "list_all lifetime evs \<Longrightarrow> set (observations c) \<subseteq> set (observations (run isSSR evs c))"
proof (induction evs arbitrary: c)
  case Nil
  show ?case by simp
next
  case (Cons ev evs)
  then have "set (observations c) \<subseteq> set (observations (step isSSR ev c))"
    by (simp add: step_keeps_registered)
  moreover have "set (observations (step isSSR ev c)) \<subseteq> set (observations (run isSSR evs (step isSSR ev c)))"
    using Cons by simp
  ultimately show ?case by auto
qed

lemma attachObserver_resolves:
  "getElement isSSR d (attachObserver isSSR d c) \<in> {None, observableElement (attachObserver isSSR d c)}"
proof -
  define c1 where "c1 = (case targetRef (props c) of
                  Some cur \<Rightarrow> if truthy cur then c\<lparr> this_targetRef := cur \<rparr> else c
                | None \<Rightarrow> c)"
  have same: "props x = props y \<Longrightarrow> this_targetRef x = this_targetRef y \<Longrightarrow>
      getElement isSSR d x = getElement isSSR d y" for x y
    by (simp add: getElement_def cong: option.case_cong list.case_cong)
  have att: "attachObserver isSSR d c =
     (case getElement isSSR d c1 of
           None \<Rightarrow> c1
         | Some el \<Rightarrow>
             if observableElement c1 = Some el then c1
             else observe el (c1\<lparr> observableElement := Some el \<rparr>))"
    unfolding attachObserver_def c1_def Let_def by (rule refl)
  have "props (attachObserver isSSR d c) = props c1"
    and "this_targetRef (attachObserver isSSR d c) = this_targetRef c1"
    by (simp_all add: att observe_def split: option.splits)
  then have ge: "getElement isSSR d (attachObserver isSSR d c) = getElement isSSR d c1"
    by (rule same)
  show ?thesis
  proof (cases "getElement isSSR d c1")
    case None
    then show ?thesis using ge by simp
  next
    case (Some el)
    then have "observableElement (attachObserver isSSR d c) = Some el"
      by (simp add: att observe_def)
    then show ?thesis using ge Some by simp
  qed
qed

text \<open>
  C1, as stated, fails: \<^verbatim>\<open>attachObserver\<close> calls \<^verbatim>\<open>observe\<close> and never unregisters. Mounted on the
  example page the component observes node 2; an update whose props name node 5 makes node
  5 the tracked element, and nodes 2 and 5 are both registered.
\<close>

theorem two_registrations_active:
  "observableElement (run False [DidMount page] (constructor watching)) = Some 2 \<and>
   observations (run False [DidMount page] (constructor watching)) = [2] \<and>
   observableElement (run False [DidMount page, DidUpdate (watching\<lparr> targetDomEl := JDom 5 \<rparr>) page]
     (constructor watching)) = Some 5 \<and>
   observations (run False [DidMount page, DidUpdate (watching\<lparr> targetDomEl := JDom 5 \<rparr>) page]
     (constructor watching)) = [2, 5]"
  by (simp add: model_defs fixtures)

text \<open>
  C1, amended. During the lifetime of a component no node is registered twice and the one
  element it tracks (\<^verbatim>\<open>observableElement\<close>) is registered. \<^verbatim>\<open>attachObserver\<close> leaves the
  registrations as they are, or adds the element it now tracks when that one was not
  registered; afterwards the element the resolver finds, if any, is the tracked one. A
  registration is never removed during the lifetime: the nodes registered at some point
  are still registered after any further events. The unmount removes them all.
\<close>

theorem registrations_accumulate:
  assumes "list_all lifetime evs" and "list_all lifetime later"
  shows "tracked_inv (run isSSR evs (constructor p)) \<and>
    observations (attachObserver isSSR d (run isSSR evs (constructor p))) =
      (case observableElement (attachObserver isSSR d (run isSSR evs (constructor p))) of
         None \<Rightarrow> observations (run isSSR evs (constructor p))
       | Some el \<Rightarrow>
           if el \<in> set (observations (run isSSR evs (constructor p)))
           then observations (run isSSR evs (constructor p))
           else observations (run isSSR evs (constructor p)) @ [el]) \<and>
    getElement isSSR d (attachObserver isSSR d (run isSSR evs (constructor p))) \<in>
      {None, observableElement (attachObserver isSSR d (run isSSR evs (constructor p)))} \<and>
    set (observations (run isSSR evs (constructor p))) \<subseteq>
      set (observations (run isSSR (evs @ later) (constructor p))) \<and>
    observations (run isSSR (evs @ [WillUnmount]) (constructor p)) = []"
proof -
  have "tracked_inv (constructor p)"
    by (simp add: tracked_inv_def constructor_def Let_def)
  then have inv: "tracked_inv (run isSSR evs (constructor p))"
    using assms(1) by (rule run_tracked)
  have obs: "observations (attachObserver isSSR d r) =
      (case observableElement (attachObserver isSSR d r) of
         None \<Rightarrow> observations r
       | Some el \<Rightarrow> if el \<in> set (observations r) then observations r else observations r @ [el])"
    if "tracked_inv r" for r
    using that attachObserver_observations [of isSSR d r]
    by (cases "observableElement (attachObserver isSSR d r)") (auto simp: tracked_inv_def)
  have grow: "set (observations (run isSSR evs (constructor p))) \<subseteq>
      set (observations (run isSSR (evs @ later) (constructor p)))"
    using run_keeps_registered [OF assms(2)] by (simp add: run_append)
  have gone: "observations (run isSSR (evs @ [WillUnmount]) (constructor p)) = []"
    by (simp add: run_append)
  show ?thesis
    using inv obs [OF inv] attachObserver_resolves grow gone by blast
qed

theorem registrations_accumulate_witness:
  "list_all lifetime [DidMount page] \<and>
   list_all lifetime [DidUpdate (watching\<lparr> targetDomEl := JDom 5 \<rparr>) page, Frame] \<and>
   observableElement (attachObserver False page (run False [DidMount page] (constructor watching))) = Some 2 \<and>
   observations (attachObserver False page (run False [DidMount page] (constructor watching))) = [2] \<and>
   set (observations (run False [DidMount page] (constructor watching))) \<subseteq>
     set (observations (run False ([DidMount page] @
        [DidUpdate (watching\<lparr> targetDomEl := JDom 5 \<rparr>) page, Frame]) (constructor watching))) \<and>
   observations (run False ([DidMount page] @ [WillUnmount]) (constructor watching)) = []"
proof -
  have h1: "list_all lifetime [DidMount page]" by simp
  have h2: "list_all lifetime [DidUpdate (watching\<lparr> targetDomEl := JDom 5 \<rparr>) page, Frame]" by simp
  have e: "observableElement (attachObserver False page (run False [DidMount page] (constructor watching))) = Some 2 \<and>
     observations (run False [DidMount page] (constructor watching)) = [2]"
    by (simp add: model_defs fixtures)
  show ?thesis
    using h1 h2 e registrations_accumulate [OF h1 h2, of False watching page]
    by simp
qed

section \<open>The mount flag\<close>











section \<open>Resolving the element\<close>

text \<open>
  C3. Outside a browser \<^verbatim>\<open>getElement\<close> returns none. In a browser a non-empty selector
  decides alone: the result is what \<^verbatim>\<open>document.querySelector\<close> returns, whatever else is given.
  Without a selector a \<^verbatim>\<open>targetDomEl\<close> that is a DOM element is returned; without that, the DOM
  element held in the component's reference, which \<^verbatim>\<open>attachObserver\<close> has filled from the
  \<^verbatim>\<open>targetRef\<close> prop; without that, the element inferred from the rendered output: the
  rendered node for the render-prop, function-child, single-child and child-array
  strategies, otherwise the parent of the rendered wrapper.
\<close>

theorem element_resolution_priority:
  "(isSSR \<longrightarrow> getElement isSSR d c = None) \<and>
   (\<not> isSSR \<and> querySelector (props c) = Some q \<and> q \<noteq> [] \<longrightarrow>
      getElement isSSR d c = document_querySelector d q) \<and>
   (\<not> isSSR \<and> \<not> selector_set (props c) \<and> targetDomEl (props c) = JDom el \<longrightarrow>
      getElement isSSR d c = Some el) \<and>
   (\<not> isSSR \<and> \<not> selector_set (props c) \<and> \<not> isDOMElement (targetDomEl (props c)) \<and>
    this_targetRef c = JDom el \<longrightarrow>
      getElement isSSR d c = Some el) \<and>
   (\<not> isSSR \<and> \<not> selector_set (props c) \<and> \<not> isDOMElement (targetDomEl (props c)) \<and>
    targetRef (props c) = Some (JDom el) \<longrightarrow>
      observableElement (attachObserver isSSR d c) = Some el) \<and>
   (\<not> isSSR \<and> \<not> selector_set (props c) \<and> \<not> isDOMElement (targetDomEl (props c)) \<and>
    \<not> isDOMElement (this_targetRef c) \<longrightarrow>
      getElement isSSR d c = inferred d (props c))"
proof (cases isSSR)
  case True
  then show ?thesis by (simp add: getElement_def)
next
  case False
  have sel: "querySelector (props c) = Some q \<Longrightarrow> q \<noteq> [] \<Longrightarrow>
      getElement False d c = document_querySelector d q"
    by (cases q) (simp_all add: getElement_def)
  have nosel: "\<not> selector_set (props c) \<Longrightarrow> getElement False d c =
      (if truthy (targetDomEl (props c)) \<and> isDOMElement (targetDomEl (props c))
        then node_of (targetDomEl (props c))
        else if isDOMElement (this_targetRef c) then node_of (this_targetRef c)
        else inferred d (props c))" for c
    by (auto simp: getElement_def selector_set_def inferred_def
          split: option.splits list.splits renderType.splits)
  have dom: "\<not> selector_set (props c) \<Longrightarrow> targetDomEl (props c) = JDom el \<Longrightarrow>
      getElement False d c = Some el"
    by (simp add: nosel)
  have ref: "\<not> selector_set (props c) \<Longrightarrow> \<not> isDOMElement (targetDomEl (props c)) \<Longrightarrow>
      this_targetRef c = JDom el \<Longrightarrow> getElement False d c = Some el"
    by (simp add: nosel)
  have att: "\<not> selector_set (props c) \<Longrightarrow> \<not> isDOMElement (targetDomEl (props c)) \<Longrightarrow>
      targetRef (props c) = Some (JDom el) \<Longrightarrow>
      observableElement (attachObserver False d c) = Some el"
    by (simp add: attachObserver_def nosel observe_def Let_def)
  have inf: "\<not> selector_set (props c) \<Longrightarrow> \<not> isDOMElement (targetDomEl (props c)) \<Longrightarrow>
      \<not> isDOMElement (this_targetRef c) \<Longrightarrow> getElement False d c = inferred d (props c)"
    by (simp add: nosel)
  from False have "isSSR = False" by simp
  then show ?thesis
    using sel dom ref att inf by blast
qed

theorem element_resolution_priority_witness:
  "getElement True page (constructor targeted) = None \<and>
   getElement False page ((constructor targeted)\<lparr> this_targetRef := JDom 6 \<rparr>) = Some 7 \<and>
   getElement False page
     ((constructor (targeted\<lparr> querySelector := None \<rparr>))\<lparr> this_targetRef := JDom 6 \<rparr>) = Some 5 \<and>
   getElement False page
     ((constructor (targeted\<lparr> querySelector := None, targetDomEl := JNull \<rparr>))
        \<lparr> this_targetRef := JDom 6 \<rparr>) = Some 6 \<and>
   observableElement (attachObserver False page
     (constructor (targeted\<lparr> querySelector := None, targetDomEl := JNull \<rparr>))) = Some 6 \<and>
   getElement False page (constructor watching) = Some 2 \<and>
   getElement False page (constructor (watching\<lparr> children := JFunction 4 \<rparr>)) = Some 3"
proof -
  have a: "\<not> selector_set (props (constructor (targeted\<lparr> querySelector := None \<rparr>))) \<and>
           \<not> selector_set (props (constructor (targeted\<lparr> querySelector := None, targetDomEl := JNull \<rparr>))) \<and>
           \<not> selector_set (props (constructor watching)) \<and>
           \<not> selector_set (props (constructor (watching\<lparr> children := JFunction 4 \<rparr>)))"
    by (simp add: selector_set_def targeted_def fixtures Let_def)
  have b: "inferred page (props (constructor watching)) = Some 2 \<and>
           inferred page (props (constructor (watching\<lparr> children := JFunction 4 \<rparr>))) = Some 3"
    by (simp add: inferred_def getRenderType_def fixtures Let_def)
  show ?thesis
    using a b
      element_resolution_priority [where isSSR = True and d = page and c = "constructor targeted"]
      element_resolution_priority [where isSSR = False and d = page and q = "''#box''"
         and c = "(constructor targeted)\<lparr> this_targetRef := JDom 6 \<rparr>"]
      element_resolution_priority [where isSSR = False and d = page and el = 5
         and c = "(constructor (targeted\<lparr> querySelector := None \<rparr>))\<lparr> this_targetRef := JDom 6 \<rparr>"]
      element_resolution_priority [where isSSR = False and d = page and el = 6
         and c = "(constructor (targeted\<lparr> querySelector := None, targetDomEl := JNull \<rparr>))
                    \<lparr> this_targetRef := JDom 6 \<rparr>"]
      element_resolution_priority [where isSSR = False and d = page and el = 6
         and c = "constructor (targeted\<lparr> querySelector := None, targetDomEl := JNull \<rparr>)"]
      element_resolution_priority [where isSSR = False and d = page and c = "constructor watching"]
      element_resolution_priority [where isSSR = False and d = page
         and c = "constructor (watching\<lparr> children := JFunction 4 \<rparr>)"]
    by (simp add: targeted_def fixtures Let_def)
qed

section \<open>Neither dimension handled\<close>

lemma step_off_inv: "off_inv c \<Longrightarrow> keeps_off ev \<Longrightarrow> off_inv (step isSSR ev c)"
proof (cases ev)
  case (Observed es now)
  assume "off_inv c"
  then show ?thesis
    by (simp add: Observed off_inv_def observed_def call_wrapped_def call_handler_off
          split: handler.splits)
next
  case TimerExpires
  assume "off_inv c"
  then show ?thesis
    by (simp add: TimerExpires off_inv_def timer_expires_def call_handler_off split: option.splits)
qed (simp_all add: off_inv_def componentDidMount_def componentDidUpdate_def frame_def)

lemma run_off_inv: "off_inv c \<Longrightarrow> list_all keeps_off evs \<Longrightarrow> off_inv (run isSSR evs c)"
  by (induction evs arbitrary: c) (simp_all add: step_off_inv)

text \<open>
  C4. A component constructed with handleWidth and handleHeight both false, and whose
  updates keep them false, never calls \<^verbatim>\<open>setState\<close> and never calls \<^verbatim>\<open>onResize\<close>, whatever
  entries the facility delivers and whenever timers and frames fire; its size stays
  undefined. The handler itself returns at once on every batch.
\<close>

theorem unhandled_never_updates:
  assumes "\<not> handleWidth p" and "\<not> handleHeight p" and "list_all keeps_off evs"
  shows "setState_calls (run isSSR evs (constructor p)) = [] \<and>
         onResize_calls (run isSSR evs (constructor p)) = [] \<and>
         state (run isSSR evs (constructor p)) = \<lparr> width = Undefined, height = Undefined \<rparr> \<and>
         createResizeHandler isSSR es (run isSSR evs (constructor p)) =
           (run isSSR evs (constructor p), None)"
proof -
  have "off_inv (constructor p)"
    using assms(1,2) by (simp add: off_inv_def constructor_def Let_def)
  then have inv: "off_inv (run isSSR evs (constructor p))"
    using assms(3) by (rule run_off_inv)
  then show ?thesis
    by (simp add: off_inv_def createResizeHandler_off)
qed

theorem unhandled_never_updates_witness:
  "\<not> handleWidth (defaultProps\<lparr> handleWidth := False, handleHeight := False, onResize := JFunction 1 \<rparr>) \<and>
   \<not> handleHeight (defaultProps\<lparr> handleWidth := False, handleHeight := False, onResize := JFunction 1 \<rparr>) \<and>
   list_all keeps_off [DidMount page, Observed [Entry (Some size_100_50)] True, Frame] \<and>
   setState_calls (run False [DidMount page, Observed [Entry (Some size_100_50)] True, Frame]
     (constructor (defaultProps\<lparr> handleWidth := False, handleHeight := False, onResize := JFunction 1 \<rparr>))) = [] \<and>
   onResize_calls (run False [DidMount page, Observed [Entry (Some size_100_50)] True, Frame]
     (constructor (defaultProps\<lparr> handleWidth := False, handleHeight := False, onResize := JFunction 1 \<rparr>))) = []"
proof -
  have h1: "\<not> handleWidth (defaultProps\<lparr> handleWidth := False, handleHeight := False, onResize := JFunction 1 \<rparr>)"
    by simp
  have h2: "\<not> handleHeight (defaultProps\<lparr> handleWidth := False, handleHeight := False, onResize := JFunction 1 \<rparr>)"
    by simp
  have h3: "list_all keeps_off [DidMount page, Observed [Entry (Some size_100_50)] True, Frame]"
    by simp
  show ?thesis
    using h1 h2 h3 unhandled_never_updates [OF h1 h2 h3, of False "[]"] by simp
qed

section \<open>Entries that repeat the current size\<close>

lemma call_handler_quiet:
  assumes "quiet_inv c0 c"
    and "list_all (unchanged (handleWidth (props c0)) (handleHeight (props c0)) (state c0)) es"
  shows "quiet_inv c0 (call_handler isSSR es (c\<lparr> deferred := None \<rparr>))"
proof (cases "handleWidth (props c) \<or> handleHeight (props c)")
  case True
  then have on: "handleWidth (props (c\<lparr> deferred := None \<rparr>)) \<or> handleHeight (props (c\<lparr> deferred := None \<rparr>))"
    by simp
  have "forwarded isSSR (handleWidth (props c)) (handleHeight (props c)) (state c) skip es = []" for skip
    using assms by (simp add: quiet_inv_def forwarded_unchanged)
  then show ?thesis
    using assms(1) by (simp add: call_handler_on [OF on] quiet_inv_def)
next
  case False
  then show ?thesis
    using assms(1) by (simp add: call_handler_off quiet_inv_def)
qed

lemma call_handler_quiet':
  assumes "quiet_inv c0 c"
    and "list_all (unchanged (handleWidth (props c0)) (handleHeight (props c0)) (state c0)) es"
  shows "quiet_inv c0 (call_handler isSSR es c)"
proof (cases "handleWidth (props c) \<or> handleHeight (props c)")
  case True
  have "forwarded isSSR (handleWidth (props c)) (handleHeight (props c)) (state c) skip es = []" for skip
    using assms by (simp add: quiet_inv_def forwarded_unchanged)
  then show ?thesis
    using assms(1) by (simp add: call_handler_on [OF True] quiet_inv_def)
next
  case False
  then show ?thesis
    using assms(1) by (simp add: call_handler_off quiet_inv_def)
qed

lemma step_quiet:
  assumes "quiet_inv c0 c"
    and "repeats_size (handleWidth (props c0)) (handleHeight (props c0)) (state c0) ev"
  shows "quiet_inv c0 (step isSSR ev c)"
proof (cases ev)
  case (Observed es now)
  then have es: "list_all (unchanged (handleWidth (props c0)) (handleHeight (props c0)) (state c0)) es"
    using assms(2) by simp
  show ?thesis
  proof (cases "callback c")
    case Raw
    then show ?thesis
      using call_handler_quiet' [OF assms(1) es] by (simp add: Observed observed_def)
  next
    case (Wrapped m)
    show ?thesis
    proof (cases now)
      case True
      then show ?thesis
        using Wrapped call_handler_quiet [OF assms(1) es]
        by (simp add: Observed observed_def call_wrapped_def)
    next
      case False
      then show ?thesis
        using Wrapped assms(1) es
        by (simp add: Observed observed_def call_wrapped_def quiet_inv_def)
    qed
  qed
next
  case TimerExpires
  show ?thesis
  proof (cases "deferred c")
    case None
    then show ?thesis using assms(1) by (simp add: TimerExpires timer_expires_def)
  next
    case (Some es)
    then have "list_all (unchanged (handleWidth (props c0)) (handleHeight (props c0)) (state c0)) es"
      using assms(1) by (simp add: quiet_inv_def)
    from call_handler_quiet [OF assms(1) this] show ?thesis
      by (simp add: TimerExpires timer_expires_def Some)
  qed
next
  case Frame
  then show ?thesis
    using assms(1) by (simp add: frame_not_scheduled quiet_inv_def)
qed (use assms(2) in simp_all)

lemma run_quiet:
  "quiet_inv c0 c \<Longrightarrow>
   list_all (repeats_size (handleWidth (props c0)) (handleHeight (props c0)) (state c0)) evs \<Longrightarrow>
   quiet_inv c0 (run isSSR evs c)"
  by (induction evs arbitrary: c) (simp_all add: step_quiet)

text \<open>
  C5. On a component with no frame requested and no deferred batch, a sequence of callbacks
  whose entries all equal the current state in the handled dimensions, with timers and
  frames between them in any order, makes no \<^verbatim>\<open>setState\<close> call, no \<^verbatim>\<open>onResize\<close> call and no call
  of the updater, and leaves the state as it is.
\<close>

theorem same_size_never_notifies:
  assumes "\<not> is_scheduled (raf c)" and "deferred c = None"
    and "list_all (repeats_size (handleWidth (props c)) (handleHeight (props c)) (state c)) evs"
  shows "setState_calls (run isSSR evs c) = setState_calls c \<and>
         onResize_calls (run isSSR evs c) = onResize_calls c \<and>
         updater_calls (run isSSR evs c) = updater_calls c \<and>
         state (run isSSR evs c) = state c"
proof -
  have "quiet_inv c c"
    using assms(1,2) by (simp add: quiet_inv_def)
  from run_quiet [OF this assms(3)] show ?thesis
    by (simp add: quiet_inv_def)
qed

theorem same_size_never_notifies_witness:
  "\<not> is_scheduled (raf settled) \<and> deferred settled = None \<and>
   list_all (repeats_size (handleWidth (props settled)) (handleHeight (props settled)) (state settled))
     [Observed [Entry (Some size_100_50), Entry (Some size_100_50)] True, Frame,
      Observed [Entry (Some size_100_50)] True, Frame] \<and>
   setState_calls (run False
     [Observed [Entry (Some size_100_50), Entry (Some size_100_50)] True, Frame,
      Observed [Entry (Some size_100_50)] True, Frame] settled) = [size_100_50] \<and>
   onResize_calls (run False
     [Observed [Entry (Some size_100_50), Entry (Some size_100_50)] True, Frame,
      Observed [Entry (Some size_100_50)] True, Frame] settled) = [size_100_50]"
proof -
  have h1: "\<not> is_scheduled (raf settled)"
    by (simp add: settled_eq)
  have h2: "deferred settled = None"
    by (simp add: settled_eq constructor_def Let_def)
  have h3: "list_all (repeats_size (handleWidth (props settled)) (handleHeight (props settled))
       (state settled))
     [Observed [Entry (Some size_100_50), Entry (Some size_100_50)] True, Frame,
      Observed [Entry (Some size_100_50)] True, Frame]"
    by (simp add: settled_eq unchanged_def size_changed_def rect_of_def)
  have e: "setState_calls settled = [size_100_50] \<and> onResize_calls settled = [size_100_50]"
    by (simp add: settled_eq)
  show ?thesis
    using h1 h2 h3 e same_size_never_notifies [OF h1 h2 h3, of False]
    by simp
qed

section \<open>Rendering\<close>

text \<open>
  C6, as stated, fails on the array strategy: \<^verbatim>\<open>render\<close> clones the entries that are truthy
  (\<^verbatim>\<open>!!el && cloneElement(el, childProps)\<close>), not those that are not \<^verbatim>\<open>null\<close>. In the array
  \<^verbatim>\<open>[false, <B/>]\<close> the first entry is not \<^verbatim>\<open>null\<close>, and it is not cloned: the result holds
  \<^verbatim>\<open>false\<close> in its place.
\<close>

theorem false_entry_is_not_cloned:
  "JBool False \<noteq> JNull \<and>
   render (sized (watching\<lparr> children := JArray [JBool False, JElement 9] \<rparr>)) =
     Inr (RArray [RFalse, Cloned (JElement 9) size_100_50]) \<and>
   render (sized (watching\<lparr> children := JArray [JBool False, JElement 9] \<rparr>)) \<noteq>
     Inr (RArray [Cloned (JBool False) size_100_50, Cloned (JElement 9) size_100_50])"
  by (simp add: render_def getRenderType_def sized_def watching_def defaultProps_def
        constructor_def Let_def size_100_50_def)

text \<open>
  C6, amended. \<^verbatim>\<open>render\<close> follows one strategy, chosen in this order: a function \<^verbatim>\<open>render\<close> prop
  is called with the width and height of the state; otherwise a function child is called
  with them; otherwise a single element child is cloned with them; otherwise an array child
  is mapped, every truthy entry cloned with them and every falsy entry (\<^verbatim>\<open>null\<close>, \<^verbatim>\<open>undefined\<close>,
  \<^verbatim>\<open>false\<close>, \<^verbatim>\<open>0\<close>, the empty string) replaced by \<^verbatim>\<open>false\<close>; otherwise an empty element of the
  \<^verbatim>\<open>nodeType\<close> tag is created. It raises in no case.
\<close>

theorem render_strategy_priority:
  "(render_prop (props c) = JFunction f \<longrightarrow> render c = Inr (Called f (state c))) \<and>
   (\<not> isFunction (render_prop (props c)) \<and> children (props c) = JFunction f \<longrightarrow>
      render c = Inr (Called f (state c))) \<and>
   (\<not> isFunction (render_prop (props c)) \<and> children (props c) = JElement e \<longrightarrow>
      render c = Inr (Cloned (JElement e) (state c))) \<and>
   (\<not> isFunction (render_prop (props c)) \<and> children (props c) = JArray els \<longrightarrow>
      render c = Inr (RArray (map (\<lambda>el. if truthy el then Cloned el (state c) else RFalse) els))) \<and>
   (\<not> truthy el \<longleftrightarrow> el \<in> {JNull, JBool False, JNumber 0, JString []}) \<and>
   (\<not> isFunction (render_prop (props c)) \<and> \<not> isFunction (children (props c)) \<and>
    \<not> isValidElement (children (props c)) \<and> \<not> isArray (children (props c)) \<longrightarrow>
      render c = Inr (Created (nodeType (props c)))) \<and>
   (\<exists>out. render c = Inr out)"
proof -
  have t: "(\<not> truthy el) = (el \<in> {JNull, JBool False, JNumber 0, JString []})"
    by (cases el) auto
  have a: "render_prop (props c) = JFunction f \<Longrightarrow> render c = Inr (Called f (state c))"
    by (simp add: render_def getRenderType_def dims_eta)
  have b: "\<not> isFunction (render_prop (props c)) \<Longrightarrow> children (props c) = JFunction f \<Longrightarrow>
      render c = Inr (Called f (state c))"
    by (simp add: render_def getRenderType_def dims_eta)
  have c: "\<not> isFunction (render_prop (props c)) \<Longrightarrow> children (props c) = JElement e \<Longrightarrow>
      render c = Inr (Cloned (JElement e) (state c))"
    by (simp add: render_def getRenderType_def dims_eta)
  have d: "\<not> isFunction (render_prop (props c)) \<Longrightarrow> children (props c) = JArray els \<Longrightarrow>
      render c = Inr (RArray (map (\<lambda>el. if truthy el then Cloned el (state c) else RFalse) els))"
    by (simp add: render_def getRenderType_def dims_eta)
  have e: "\<not> isFunction (render_prop (props c)) \<Longrightarrow> \<not> isFunction (children (props c)) \<Longrightarrow>
    \<not> isValidElement (children (props c)) \<Longrightarrow> \<not> isArray (children (props c)) \<Longrightarrow>
      render c = Inr (Created (nodeType (props c)))"
    by (simp add: render_def getRenderType_def)
  have f: "\<exists>out. render c = Inr out"
  proof (cases "isFunction (render_prop (props c))")
    case True
    then show ?thesis
      by (cases "render_prop (props c)") (simp_all add: render_def getRenderType_def)
  next
    case False
    then show ?thesis
      by (cases "children (props c)") (simp_all add: render_def getRenderType_def)
  qed
  show ?thesis
    using a b c d e f t by blast
qed

theorem render_strategy_priority_witness:
  "render (sized (watching\<lparr> render_prop := JFunction 8, children := JFunction 4 \<rparr>)) =
     Inr (Called 8 size_100_50) \<and>
   render (sized (watching\<lparr> children := JFunction 4 \<rparr>)) = Inr (Called 4 size_100_50) \<and>
   render (sized (watching\<lparr> children := JElement 9 \<rparr>)) = Inr (Cloned (JElement 9) size_100_50) \<and>
   render (sized (watching\<lparr> children := JArray [JElement 9, JNull, JNumber 0, JString ''a''] \<rparr>)) =
     Inr (RArray [Cloned (JElement 9) size_100_50, RFalse, RFalse,
                  Cloned (JString ''a'') size_100_50]) \<and>
   render (sized watching) = Inr (Created ''div'')"
  using
    render_strategy_priority [where f = 8
      and c = "sized (watching\<lparr> render_prop := JFunction 8, children := JFunction 4 \<rparr>)"]
    render_strategy_priority [where f = 4 and c = "sized (watching\<lparr> children := JFunction 4 \<rparr>)"]
    render_strategy_priority [where e = 9 and c = "sized (watching\<lparr> children := JElement 9 \<rparr>)"]
    render_strategy_priority [where els = "[JElement 9, JNull, JNumber 0, JString ''a'']"
      and c = "sized (watching\<lparr> children := JArray [JElement 9, JNull, JNumber 0, JString ''a''] \<rparr>)"]
    render_strategy_priority [where c = "sized watching"]
  by (simp add: sized_def watching_def defaultProps_def constructor_def Let_def)

section \<open>Teardown\<close>

text \<open>The flag the unmount sets is read nowhere: the handler and the frame do the same
  whether it is set or not.\<close>

lemma unmounted_is_not_read:
  "call_handler isSSR es (c\<lparr> unmounted := b \<rparr>) = (call_handler isSSR es c)\<lparr> unmounted := b \<rparr>"
  "frame (c\<lparr> unmounted := b \<rparr>) = (frame c)\<lparr> unmounted := b \<rparr>"
proof -
  show "call_handler isSSR es (c\<lparr> unmounted := b \<rparr>) = (call_handler isSSR es c)\<lparr> unmounted := b \<rparr>"
  proof (cases "handleWidth (props c) \<or> handleHeight (props c)")
    case True
    then have "handleWidth (props (c\<lparr> unmounted := b \<rparr>)) \<or> handleHeight (props (c\<lparr> unmounted := b \<rparr>))"
      by simp
    then show ?thesis
      by (simp add: call_handler_on [OF True] call_handler_on)
  next
    case False
    then show ?thesis by (simp add: call_handler_off)
  qed
  show "frame (c\<lparr> unmounted := b \<rparr>) = (frame c)\<lparr> unmounted := b \<rparr>"
    by (cases "raf c" rule: is_scheduled.cases) (simp_all add: frame_def flush_def Let_def)
qed

lemma step_live:
  assumes "live_inv c" and "lifetime ev"
  shows "live_inv (step isSSR ev c)"
proof (cases ev)
  case (Observed es now)
  then show ?thesis
    using assms(1)
    by (auto simp: observed_def call_wrapped_def live_inv_def split: handler.splits)
next
  case TimerExpires
  then show ?thesis
    using assms(1) by (auto simp: timer_expires_def live_inv_def split: option.splits)
next
  case Frame
  then show ?thesis
    using assms(1)
    by (cases "raf c" rule: is_scheduled.cases) (simp_all add: frame_def live_inv_def)
next
  case WillUnmount
  then show ?thesis using assms(2) by simp
qed (use assms(1) in \<open>simp_all add: live_inv_def componentDidMount_def componentDidUpdate_def\<close>)

lemma run_live: "live_inv c \<Longrightarrow> list_all lifetime evs \<Longrightarrow> live_inv (run isSSR evs c)"
  by (induction evs arbitrary: c) (simp_all add: step_live)

lemma constructor_live: "live_inv (constructor p)"
  by (simp add: live_inv_def constructor_def Let_def)

lemma unmount_torn_down: "live_inv c \<Longrightarrow> torn_down (componentWillUnmount c)"
  by (cases "callback c")
     (simp_all add: live_inv_def torn_down_def componentWillUnmount_def cancelHandler_def
        rafClean_def disconnect_def split: option.splits)

lemma step_torn_down: "torn_down c \<Longrightarrow> pending ev \<Longrightarrow> step isSSR ev c = c"
  by (cases ev) (simp_all add: torn_down_def timer_expires_def frame_def)

lemma run_torn_down: "torn_down c \<Longrightarrow> list_all pending evs \<Longrightarrow> run isSSR evs c = c"
  by (induction evs) (simp_all add: step_torn_down)

text \<open>What teardown does cancel: after any lifetime and the unmount no frame is requested,
  no batch is deferred in the wrapper and no node is registered, so the timers and frames
  that follow do nothing.\<close>

lemma teardown_cancels:
  assumes "list_all lifetime before" and "list_all pending after"
  shows "raf (run isSSR (before @ [WillUnmount]) (constructor p)) = None \<and>
         deferred (run isSSR (before @ [WillUnmount]) (constructor p)) = None \<and>
         observations (run isSSR (before @ [WillUnmount]) (constructor p)) = [] \<and>
         unmounted (run isSSR (before @ [WillUnmount]) (constructor p)) \<and>
         run isSSR (before @ [WillUnmount] @ after) (constructor p) =
           run isSSR (before @ [WillUnmount]) (constructor p)"
proof -
  have live: "live_inv (run isSSR before (constructor p))"
    by (rule run_live [OF constructor_live assms(1)])
  have td: "torn_down (componentWillUnmount (run isSSR before (constructor p)))"
    by (rule unmount_torn_down [OF live])
  have "run isSSR after (componentWillUnmount (run isSSR before (constructor p))) =
        componentWillUnmount (run isSSR before (constructor p))"
    by (rule run_torn_down [OF td assms(2)])
  then show ?thesis
    using td by (simp add: run_append torn_down_def unmount_sets_unmounted)
qed


section \<open>One batch, one frame\<close>

text \<open>
  C8. A batch is processed in delivery order: the updater is called with the forwarded
  sizes in that order, and the handler itself commits nothing. The frame that follows
  commits one size, the last one forwarded: one \<^verbatim>\<open>setState\<close>, one \<^verbatim>\<open>onResize\<close> when it is a
  function. The sizes forwarded before it are dropped, and a further frame commits nothing.
\<close>

theorem batch_commits_last:
  assumes "handleWidth (props c) \<or> handleHeight (props c)"
  shows "let fw = forwarded isSSR (handleWidth (props c)) (handleHeight (props c)) (state c)
                    (this_skipOnMount c) es;
             c1 = call_handler isSSR es c;
             c2 = frame c1
         in updater_calls c1 = updater_calls c @ fw \<and>
            setState_calls c1 = setState_calls c \<and> onResize_calls c1 = onResize_calls c \<and>
            (fw = [] \<longrightarrow> c2 = c1) \<and>
            (fw \<noteq> [] \<longrightarrow>
               setState_calls c2 = setState_calls c @ [last fw] \<and>
               onResize_calls c2 =
                 onResize_calls c @ (if isFunction (onResize (props c)) then [last fw] else []) \<and>
               state c2 = last fw) \<and>
            frame c2 = c2"
proof (cases "forwarded isSSR (handleWidth (props c)) (handleHeight (props c)) (state c)
                    (this_skipOnMount c) es")
  case Nil
  then show ?thesis
    by (simp add: call_handler_on [OF assms] frame_def Let_def)
next
  case (Cons x xs)
  then show ?thesis
    by (simp add: call_handler_on [OF assms] frame_def Let_def)
qed

theorem batch_commits_last_witness:
  "(handleWidth (props (constructor watching)) \<or> handleHeight (props (constructor watching))) \<and>
   updater_calls (call_handler False [Entry (Some size_100_50), Entry (Some size_120_60)]
      (constructor watching)) = [size_100_50, size_120_60] \<and>
   setState_calls (frame (call_handler False [Entry (Some size_100_50), Entry (Some size_120_60)]
      (constructor watching))) = [size_120_60] \<and>
   onResize_calls (frame (call_handler False [Entry (Some size_100_50), Entry (Some size_120_60)]
      (constructor watching))) = [size_120_60] \<and>
   state (frame (call_handler False [Entry (Some size_100_50), Entry (Some size_120_60)]
      (constructor watching))) = size_120_60"
proof -
  have h: "handleWidth (props (constructor watching)) \<or> handleHeight (props (constructor watching))"
    by (simp add: fixtures)
  have fw: "forwarded False (handleWidth (props (constructor watching)))
              (handleHeight (props (constructor watching))) (state (constructor watching))
              (this_skipOnMount (constructor watching))
              [Entry (Some size_100_50), Entry (Some size_120_60)] = [size_100_50, size_120_60]"
    by (simp add: fixtures forwarded_def size_changed_def rect_of_def)
  have e: "setState_calls (constructor watching) = [] \<and> onResize_calls (constructor watching) = []
     \<and> updater_calls (constructor watching) = [] \<and> isFunction (onResize (props (constructor watching)))"
    by (simp add: fixtures)
  show ?thesis
    using h e batch_commits_last [OF h, of False "[Entry (Some size_100_50), Entry (Some size_120_60)]"]
    by (simp add: fw Let_def)
qed

text \<open>
  C9. Every entry of a batch is compared with the state read at the start of the batch:
  the sizes forwarded are those that differ from it, whatever was forwarded before in the
  same batch, and the state is the same after the batch. So two entries in a row with
  the same new size both call the updater.
\<close>

theorem batch_compares_with_state_at_start:
  assumes "handleWidth (props c) \<or> handleHeight (props c)"
  shows "updater_calls (call_handler isSSR es c) =
           updater_calls c @
           (if isSSR then []
            else filter (size_changed (handleWidth (props c)) (handleHeight (props c)) (state c))
                   (map rect_of (if this_skipOnMount c then tl es else es))) \<and>
         state (call_handler isSSR es c) = state c \<and>
         (\<not> this_skipOnMount c \<and> \<not> isSSR \<and>
          size_changed (handleWidth (props c)) (handleHeight (props c)) (state c) r \<longrightarrow>
            updater_calls (call_handler isSSR [Entry (Some r), Entry (Some r)] c) =
              updater_calls c @ [r, r])"
  by (simp add: call_handler_on [OF assms] forwarded_def rect_of_def)

theorem batch_compares_with_state_at_start_witness:
  "(handleWidth (props (constructor watching)) \<or> handleHeight (props (constructor watching))) \<and>
   \<not> this_skipOnMount (constructor watching) \<and>
   size_changed (handleWidth (props (constructor watching))) (handleHeight (props (constructor watching)))
     (state (constructor watching)) size_100_50 \<and>
   updater_calls (call_handler False [Entry (Some size_100_50), Entry (Some size_100_50)]
      (constructor watching)) = [size_100_50, size_100_50]"
proof -
  have h: "handleWidth (props (constructor watching)) \<or> handleHeight (props (constructor watching))"
    by (simp add: fixtures)
  have k: "\<not> this_skipOnMount (constructor watching) \<and>
     size_changed (handleWidth (props (constructor watching))) (handleHeight (props (constructor watching)))
       (state (constructor watching)) size_100_50 \<and> updater_calls (constructor watching) = []"
    by (simp add: fixtures size_changed_def)
  show ?thesis
    using h k batch_compares_with_state_at_start [OF h, of False "[]" size_100_50]
    by simp
qed

section \<open>Malformed entries\<close>

lemma call_handler_reach_inv: "reach_inv isSSR c \<Longrightarrow> reach_inv isSSR (call_handler isSSR es c)"
proof (cases "handleWidth (props c) \<or> handleHeight (props c)")
  case True
  assume "reach_inv isSSR c"
  then show ?thesis
    using forwarded_nonempty [of isSSR "handleWidth (props c)" "handleHeight (props c)" "state c"
        "this_skipOnMount c" es]
    by (auto simp: call_handler_on [OF True] reach_inv_def split: list.splits)
next
  case False
  assume "reach_inv isSSR c"
  then show ?thesis using False by (simp add: call_handler_off)
qed

lemma reach_inv_deferred [simp]: "reach_inv isSSR (c\<lparr> deferred := x \<rparr>) = reach_inv isSSR c"
  by (simp add: reach_inv_def)

lemma frame_reach_inv: "reach_inv isSSR c \<Longrightarrow> reach_inv isSSR (frame c)"
  by (cases "raf c" rule: is_scheduled.cases) (auto simp: frame_def reach_inv_def)

lemma step_reach_inv: "reach_inv isSSR c \<Longrightarrow> reach_inv isSSR (step isSSR ev c)"
proof (cases ev)
  case (Observed es now)
  assume "reach_inv isSSR c"
  then show ?thesis
    by (simp add: Observed observed_def call_wrapped_def call_handler_reach_inv split: handler.splits)
next
  case TimerExpires
  assume "reach_inv isSSR c"
  then show ?thesis
    by (simp add: TimerExpires timer_expires_def call_handler_reach_inv split: option.splits)
next
  case Frame
  assume "reach_inv isSSR c"
  then show ?thesis by (simp add: Frame frame_reach_inv)
qed (simp_all add: reach_inv_def componentDidMount_def componentDidUpdate_def)

lemma run_reach_inv: "reach_inv isSSR c \<Longrightarrow> reach_inv isSSR (run isSSR evs c)"
  by (induction evs arbitrary: c) (simp_all add: step_reach_inv)

lemma constructor_reach_inv: "reach_inv isSSR (constructor p)"
  by (simp add: reach_inv_def constructor_def Let_def undefined_size_def)

text \<open>
  C10. The handler raises on no input: the guard \<^verbatim>\<open>(entry && entry.contentRect) || {}\<close> never
  reads a property of \<^verbatim>\<open>null\<close>. A \<^verbatim>\<open>null\<close> entry and an entry without content rectangle have
  width and height \<^verbatim>\<open>undefined\<close>. On a component reached from the constructor whose state
  holds two numbers, and with a dimension handled, such an entry is a size change: the
  updater is called with the undefined size, and the next frame commits it (state,
  \<^verbatim>\<open>setState\<close>, and \<^verbatim>\<open>onResize\<close> when it is a function).
\<close>

theorem handler_total_on_malformed:
  "snd (createResizeHandler isSSR es c) = None \<and>
   (malformed e \<longrightarrow> entry_rect e = Inr undefined_size) \<and>
   (malformed e \<and> state (run isSSR evs (constructor p)) = \<lparr> width = Num w, height = Num h \<rparr> \<and>
    (handleWidth (props (run isSSR evs (constructor p))) \<or>
     handleHeight (props (run isSSR evs (constructor p)))) \<longrightarrow>
      updater_calls (call_handler isSSR [e] (run isSSR evs (constructor p))) =
        updater_calls (run isSSR evs (constructor p)) @ [undefined_size] \<and>
      state (frame (call_handler isSSR [e] (run isSSR evs (constructor p)))) = undefined_size \<and>
      setState_calls (frame (call_handler isSSR [e] (run isSSR evs (constructor p)))) =
        setState_calls (run isSSR evs (constructor p)) @ [undefined_size] \<and>
      onResize_calls (frame (call_handler isSSR [e] (run isSSR evs (constructor p)))) =
        onResize_calls (run isSSR evs (constructor p)) @
        (if isFunction (onResize (props (run isSSR evs (constructor p)))) then [undefined_size]
         else []))"
proof -
  have total: "snd (createResizeHandler isSSR es c) = None"
    by (cases "handleWidth (props c) \<or> handleHeight (props c)")
       (simp_all add: createResizeHandler_on createResizeHandler_off)
  have rect: "malformed e \<Longrightarrow> entry_rect e = Inr undefined_size"
    by (cases e rule: malformed.cases) (simp_all add: entry_rect_def undefined_size_def)
  have commit:
    "updater_calls (call_handler isSSR [e] r) = updater_calls r @ [undefined_size] \<and>
     state (frame (call_handler isSSR [e] r)) = undefined_size \<and>
     setState_calls (frame (call_handler isSSR [e] r)) = setState_calls r @ [undefined_size] \<and>
     onResize_calls (frame (call_handler isSSR [e] r)) =
       onResize_calls r @ (if isFunction (onResize (props r)) then [undefined_size] else [])"
    if m: "malformed e" and st: "state r = \<lparr> width = Num w, height = Num h \<rparr>"
      and on: "handleWidth (props r) \<or> handleHeight (props r)"
      and r: "r = run isSSR evs (constructor p)" for r
  proof -
    have "reach_inv isSSR r"
      unfolding r by (rule run_reach_inv [OF constructor_reach_inv])
    with st have live: "\<not> this_skipOnMount r \<and> \<not> isSSR"
      by (cases "updater_calls r = []") (simp_all add: reach_inv_def undefined_size_def)
    have ro: "rect_of e = undefined_size"
      using m by (cases e rule: malformed.cases) (simp_all add: rect_of_def undefined_size_def)
    have fw: "forwarded isSSR (handleWidth (props r)) (handleHeight (props r)) (state r)
                (this_skipOnMount r) [e] = [undefined_size]"
      using live on st by (auto simp: forwarded_def size_changed_def ro undefined_size_def)
    show ?thesis
      by (simp add: call_handler_on [OF on] fw frame_def)
  qed
  show ?thesis
    using total rect commit by blast
qed

theorem handler_total_on_malformed_witness:
  "malformed NullEntry \<and>
   state (run False [DidMount page, Observed [Entry (Some size_100_50)] True, Frame]
     (constructor watching)) = \<lparr> width = Num 100, height = Num 50 \<rparr> \<and>
   (handleWidth (props (run False [DidMount page, Observed [Entry (Some size_100_50)] True, Frame]
     (constructor watching))) \<or>
    handleHeight (props (run False [DidMount page, Observed [Entry (Some size_100_50)] True, Frame]
     (constructor watching)))) \<and>
   snd (createResizeHandler False [NullEntry] (run False [DidMount page, Observed [Entry (Some size_100_50)] True, Frame]
     (constructor watching))) = None \<and>
   entry_rect NullEntry = Inr undefined_size \<and>
   state (frame (call_handler False [NullEntry]
     (run False [DidMount page, Observed [Entry (Some size_100_50)] True, Frame]
       (constructor watching)))) = undefined_size \<and>
   setState_calls (frame (call_handler False [NullEntry]
     (run False [DidMount page, Observed [Entry (Some size_100_50)] True, Frame]
       (constructor watching)))) = [size_100_50, undefined_size] \<and>
   onResize_calls (frame (call_handler False [NullEntry]
     (run False [DidMount page, Observed [Entry (Some size_100_50)] True, Frame]
       (constructor watching)))) = [size_100_50, undefined_size]"
proof -
  have m: "malformed NullEntry" by simp
  have st: "state (run False [DidMount page, Observed [Entry (Some size_100_50)] True, Frame]
     (constructor watching)) = \<lparr> width = Num 100, height = Num 50 \<rparr>"
    unfolding example_run by (simp add: size_100_50_def)
  have on: "handleWidth (props (run False [DidMount page, Observed [Entry (Some size_100_50)] True, Frame]
     (constructor watching))) \<or>
    handleHeight (props (run False [DidMount page, Observed [Entry (Some size_100_50)] True, Frame]
     (constructor watching)))"
    unfolding example_run by (simp add: fixtures)
  have logs: "setState_calls (run False [DidMount page, Observed [Entry (Some size_100_50)] True, Frame]
     (constructor watching)) = [size_100_50] \<and>
     onResize_calls (run False [DidMount page, Observed [Entry (Some size_100_50)] True, Frame]
     (constructor watching)) = [size_100_50] \<and>
     isFunction (onResize (props (run False [DidMount page, Observed [Entry (Some size_100_50)] True, Frame]
     (constructor watching))))"
    unfolding example_run by (simp add: fixtures)
  show ?thesis
    using m st on logs
      handler_total_on_malformed [of False "[NullEntry]"
        "run False [DidMount page, Observed [Entry (Some size_100_50)] True, Frame] (constructor watching)"
        NullEntry "[DidMount page, Observed [Entry (Some size_100_50)] True, Frame]" watching 100 50]
    by simp
qed

end
